theory Spec2Isabelle
  imports Main
begin

section \<open>Chronos service: data model\<close>

text \<open>
  The development follows \<^verbatim>\<open>SAUC-MASTER-FINAL/chronos/service.py\<close>.

  Python \<^verbatim>\<open>str\<close> values are modelled as \<^typ>\<open>string\<close>, read as the UTF-8 bytes of
  the text, so that \<^verbatim>\<open>data.encode()\<close> is the identity. Three things the module
  takes from outside are inputs of the model:
  \<^item> \<^verbatim>\<open>hashlib.sha256(b).hexdigest()\<close> is a parameter \<open>sha\<close> from bytes to text;
  \<^item> \<^verbatim>\<open>json.dumps(data, sort_keys=k)\<close> is a parameter \<open>dumps k\<close>, which answers
    \<open>None\<close> where the library raises \<^verbatim>\<open>TypeError\<close> on a value it cannot serialise;
  \<^item> every reading of the clock (\<^verbatim>\<open>time.time()\<close>, \<^verbatim>\<open>datetime.now().isoformat()\<close>)
    is an argument of the call that reads it.
\<close>

text \<open>The values that occur in the \<^verbatim>\<open>Dict[str, Any]\<close> payloads of the module.\<close>

datatype pyval =
    PStr string
  | PInt int
  | PBool bool
  | PList "pyval list"
  | PDict "(string \<times> pyval) list"

type_synonym pydict = "(string \<times> pyval) list"

text \<open>
  \<^verbatim>\<open>@dataclass class BlockchainTransaction\<close>. The status is the string the code
  stores: \<^verbatim>\<open>"pending"\<close>, \<^verbatim>\<open>"confirmed"\<close> or \<^verbatim>\<open>"rejected"\<close>.
\<close>

record BlockchainTransaction =
  tx_id :: string
  timestamp :: string
  operation :: string
  data_hash :: string
  previous_hash :: string
  merkle_root :: string
  status :: string

text \<open>
  Transactions are mutable objects that the caller and the chain share:
  \<^verbatim>\<open>add_transaction\<close> assigns \<^verbatim>\<open>transaction.status\<close> on the object it was handed
  and appends that same object. The model therefore keeps an explicit store of
  transaction objects. A reference is an index into the store; allocation appends, so a
  new object never displaces an old one.
\<close>

type_synonym ref = nat

text \<open>
  \<^verbatim>\<open>class BlockchainOrchestrator\<close>: \<open>chain\<close> and \<open>pending_transactions\<close> are its
  attributes, \<open>objects\<close> is the store of the transaction objects that exist.
  The attribute \<^verbatim>\<open>genesis_hash\<close> is assigned once in \<^verbatim>\<open>__init__\<close> and only read
  afterwards; it is the constant below.
\<close>

record BlockchainOrchestrator =
  objects :: "BlockchainTransaction list"
  chain :: "ref list"
  pending_transactions :: "pydict list"

definition genesis_hash :: string where
  "genesis_hash = ''0000000000000000000000000000000000000000000000000000000000000000''"

definition init_orchestrator :: BlockchainOrchestrator where
  "init_orchestrator = \<lparr>objects = [], chain = [], pending_transactions = []\<rparr>"

definition deref :: "BlockchainOrchestrator \<Rightarrow> ref \<Rightarrow> BlockchainTransaction option" where
  "deref s r = (if r < length (objects s) then Some (objects s ! r) else None)"

text \<open>The libraries the module calls.\<close>

record env =
  sha :: "string \<Rightarrow> string"
  dumps :: "bool \<Rightarrow> pydict \<Rightarrow> string option"

section \<open>BlockchainOrchestrator\<close>

definition calculate_hash :: "env \<Rightarrow> string \<Rightarrow> string" where
  "calculate_hash e d = sha e d"

text \<open>
  One pass of the inner \<^verbatim>\<open>for i in range(0, len(hashes), 2)\<close> loop of
  \<^verbatim>\<open>calculate_merkle_root\<close>: neighbours are concatenated and hashed, a last element
  without a neighbour is concatenated with itself.
\<close>

fun merkle_level :: "env \<Rightarrow> string list \<Rightarrow> string list" where
  "merkle_level e [] = []"
| "merkle_level e [h] = [calculate_hash e (h @ h)]"
| "merkle_level e (h # h' # hs) = calculate_hash e (h @ h') # merkle_level e hs"

lemma length_merkle_level: "length (merkle_level e hs) = (length hs + 1) div 2"
  by (induction e hs rule: merkle_level.induct) simp_all

text \<open>The \<^verbatim>\<open>while len(hashes) > 1\<close> loop.\<close>

function merkle_reduce :: "env \<Rightarrow> string list \<Rightarrow> string list" where
  "merkle_reduce e hashes =
     (if length hashes > 1 then merkle_reduce e (merkle_level e hashes) else hashes)"
  by pat_completeness auto
termination
  by (relation "measure (\<lambda>(e, hashes). length hashes)") (auto simp: length_merkle_level)

declare merkle_reduce.simps [simp del]

definition calculate_merkle_root :: "env \<Rightarrow> string list \<Rightarrow> string" where
  "calculate_merkle_root e transactions =
     (if transactions = [] then genesis_hash
      else (case merkle_reduce e (map (calculate_hash e) transactions) of
              [] \<Rightarrow> genesis_hash
            | h # _ \<Rightarrow> h))"

text \<open>
  \<^verbatim>\<open>self.chain[-1].data_hash if self.chain else self.genesis_hash\<close>. The answer is
  \<open>None\<close> when the last element of the chain is not a transaction object, where the
  attribute access raises.
\<close>

definition latest_hash :: "BlockchainOrchestrator \<Rightarrow> string option" where
  "latest_hash s =
     (if chain s = [] then Some genesis_hash
      else map_option data_hash (deref s (last (chain s))))"

datatype exn = TypeError | AttributeError | CancelledError

text \<open>
  \<^verbatim>\<open>create_transaction(operation, data)\<close>; \<open>now\<close> is the text of \<^verbatim>\<open>time.time()\<close>
  and \<open>stamp\<close> that of \<^verbatim>\<open>datetime.now().isoformat()\<close>. The method has no handler, so
  an exception of \<^verbatim>\<open>json.dumps\<close> or of the read of the tail leaves it; the state is
  then the one before the call. Otherwise the new object is allocated in the store and
  its reference returned with the state.
\<close>

definition create_transaction ::
  "env \<Rightarrow> BlockchainOrchestrator \<Rightarrow> string \<Rightarrow> pydict \<Rightarrow> string \<Rightarrow> string
     \<Rightarrow> exn + (ref \<times> BlockchainOrchestrator)" where
  "create_transaction e s op d now stamp =
     (case dumps e False d of
        None \<Rightarrow> Inl TypeError
      | Some j \<Rightarrow>
          (case dumps e True d of
             None \<Rightarrow> Inl TypeError
           | Some js \<Rightarrow>
               (case latest_hash s of
                  None \<Rightarrow> Inl AttributeError
                | Some prev \<Rightarrow>
                    Inr (length (objects s),
                         s\<lparr>objects := objects s @
                             [\<lparr>tx_id = calculate_hash e (op @ ''_'' @ now @ ''_'' @ j),
                               timestamp = stamp,
                               operation = op,
                               data_hash = calculate_hash e js,
                               previous_hash = prev,
                               merkle_root = calculate_merkle_root e [j],
                               status = ''pending''\<rparr>]\<rparr>))))"

text \<open>\<^verbatim>\<open>_validate_transaction\<close>, on a transaction object; \<open>None\<close> where it raises.\<close>

definition validate_transaction ::
  "BlockchainOrchestrator \<Rightarrow> BlockchainTransaction \<Rightarrow> bool option" where
  "validate_transaction s tx =
     (if tx_id tx = [] \<or> timestamp tx = [] then Some False
      else (case latest_hash s of
              None \<Rightarrow> None
            | Some expected_previous \<Rightarrow>
                if previous_hash tx \<noteq> expected_previous then Some False else Some True))"

text \<open>
  \<^verbatim>\<open>add_transaction(transaction)\<close>, on a reference. The \<^verbatim>\<open>except Exception\<close>
  branch is reached when the argument is not a transaction object or the validation
  raises; nothing has been assigned by then.
\<close>

definition add_transaction :: "BlockchainOrchestrator \<Rightarrow> ref \<Rightarrow> bool \<times> BlockchainOrchestrator" where
  "add_transaction s r =
     (case deref s r of
        None \<Rightarrow> (False, s)
      | Some tx \<Rightarrow>
          (case validate_transaction s tx of
             None \<Rightarrow> (False, s)
           | Some True \<Rightarrow>
               (True, s\<lparr>objects := (objects s)[r := tx\<lparr>status := ''confirmed''\<rparr>],
                        chain := chain s @ [r]\<rparr>)
           | Some False \<Rightarrow>
               (False, s\<lparr>objects := (objects s)[r := tx\<lparr>status := ''rejected''\<rparr>]\<rparr>)))"

text \<open>
  \<^verbatim>\<open>DLTOperations.verify_consolidation_chain\<close>. The method answers a \<^verbatim>\<open>bool\<close>; what
  it found goes to the logger, so the model returns the boolean with the line logged.
\<close>

datatype log_line =
    Genesis_transaction_invalid
  | Hash_chain_broken_at_transaction nat
  | Consolidation_chain_verified_successfully
  | Chain_verification_failed

text \<open>
  The \<^verbatim>\<open>for i, tx in enumerate(self.blockchain.chain)\<close> loop, at index \<open>i\<close> with the
  elements from \<open>i\<close> on still to visit.
\<close>

fun verify_links :: "BlockchainOrchestrator \<Rightarrow> nat \<Rightarrow> ref list \<Rightarrow> bool \<times> log_line list" where
  "verify_links s i [] = (True, [Consolidation_chain_verified_successfully])"
| "verify_links s i (r # rs) =
     (case deref s r of
        None \<Rightarrow> (False, [Chain_verification_failed])
      | Some tx \<Rightarrow>
          if i = 0 then
            (if previous_hash tx \<noteq> genesis_hash then (False, [Genesis_transaction_invalid])
             else verify_links s (Suc i) rs)
          else
            (case deref s (chain s ! (i - 1)) of
               None \<Rightarrow> (False, [Chain_verification_failed])
             | Some p \<Rightarrow>
                 if previous_hash tx \<noteq> data_hash p
                 then (False, [Hash_chain_broken_at_transaction i])
                 else verify_links s (Suc i) rs))"

definition verify_consolidation_chain :: "BlockchainOrchestrator \<Rightarrow> bool \<times> log_line list" where
  "verify_consolidation_chain s =
     (if length (chain s) = 0 then (True, []) else verify_links s 0 (chain s))"

text \<open>
  The linkage the specification asks of the transaction at index \<open>i\<close>, and the index
  of the first transaction that does not have it.
\<close>

definition link_ok :: "BlockchainOrchestrator \<Rightarrow> nat \<Rightarrow> bool" where
  "link_ok s i =
     (case deref s (chain s ! i) of
        None \<Rightarrow> False
      | Some tx \<Rightarrow>
          if i = 0 then previous_hash tx = replicate 64 CHR ''0''
          else (case deref s (chain s ! (i - 1)) of
                  None \<Rightarrow> False
                | Some p \<Rightarrow> previous_hash tx = data_hash p))"

definition first_break :: "BlockchainOrchestrator \<Rightarrow> nat option" where
  "first_break s = find (\<lambda>i. \<not> link_ok s i) [0..<length (chain s)]"

text \<open>
  A run of calls on the ledger. \<open>Construct\<close> is the caller building a
  \<^verbatim>\<open>BlockchainTransaction\<close> with the dataclass constructor, which is how
  \<^verbatim>\<open>add_transaction\<close> comes to be handed an object that \<^verbatim>\<open>create_transaction\<close> did not
  make. A call that raises leaves the state as it was.
\<close>

datatype ledger_call =
    Construct BlockchainTransaction
  | Create string pydict string string
  | Add ref

fun ledger_step :: "env \<Rightarrow> BlockchainOrchestrator \<Rightarrow> ledger_call \<Rightarrow> BlockchainOrchestrator" where
  "ledger_step e s (Construct tx) = s\<lparr>objects := objects s @ [tx]\<rparr>"
| "ledger_step e s (Create op d now stamp) =
     (case create_transaction e s op d now stamp of Inl _ \<Rightarrow> s | Inr (_, s') \<Rightarrow> s')"
| "ledger_step e s (Add r) = snd (add_transaction s r)"

definition ledger_run :: "env \<Rightarrow> ledger_call list \<Rightarrow> BlockchainOrchestrator" where
  "ledger_run e calls = foldl (ledger_step e) init_orchestrator calls"

text \<open>
  A stand-in for the two libraries, used where an example is evaluated: it prefixes
  where SHA-256 digests, and joins the keys where JSON serialises.
\<close>

definition toy_env :: env where
  "toy_env = \<lparr>sha = (\<lambda>b. ''h:'' @ b),
              dumps = (\<lambda>k d. Some ((if k then ''s:'' else ''u:'') @ concat (map fst d)))\<rparr>"

section \<open>TemporalCoordinator\<close>

text \<open>Python's \<^verbatim>\<open>str\<close> of an integer, as the f-strings of the module render it.\<close>

function str_nat :: "nat \<Rightarrow> string" where
  "str_nat n =
     (if n < 10 then [''0123456789'' ! n]
      else str_nat (n div 10) @ [''0123456789'' ! (n mod 10)])"
  by pat_completeness auto
termination
  by (relation "measure id") auto

declare str_nat.simps [simp del]

definition str_int :: "int \<Rightarrow> string" where
  "str_int i = (if i < 0 then ''-'' @ str_nat (nat (- i)) else str_nat (nat i))"

text \<open>
  \<^verbatim>\<open>@dataclass class TemporalEvent\<close>; its \<^verbatim>\<open>timestamp\<close> field is \<open>event_timestamp\<close>
  here, the name being taken by the transaction's.
\<close>

record TemporalEvent =
  event_id :: string
  event_timestamp :: string
  event_type :: string
  agent :: string
  data :: pydict
  sequence :: int

record TemporalCoordinator =
  events :: "TemporalEvent list"
  sequence_counter :: int
  coordination_locks :: "string \<rightharpoonup> bool"

definition init_coordinator :: TemporalCoordinator where
  "init_coordinator = \<lparr>events = [], sequence_counter = 0, coordination_locks = Map.empty\<rparr>"

text \<open>
  \<^verbatim>\<open>register_event(event_type, agent, data)\<close>; \<open>ms\<close> is \<^verbatim>\<open>int(time.time() * 1000)\<close>
  and \<open>stamp\<close> is \<^verbatim>\<open>datetime.now().isoformat()\<close>. The coroutine has no suspension
  point of its own.
\<close>

definition register_event ::
  "TemporalCoordinator \<Rightarrow> string \<Rightarrow> string \<Rightarrow> pydict \<Rightarrow> int \<Rightarrow> string
     \<Rightarrow> string \<times> TemporalCoordinator" where
  "register_event c ty ag d ms stamp =
     (let eid = ''event_'' @ str_int ms @ ''_'' @ str_int (sequence_counter c);
          c1 = c\<lparr>sequence_counter := sequence_counter c + 1\<rparr>;
          event = \<lparr>event_id = eid, event_timestamp = stamp, event_type = ty, agent = ag,
                   data = d, sequence = sequence_counter c1\<rparr>
      in (eid, c1\<lparr>events := events c1 @ [event]\<rparr>))"

text \<open>\<^verbatim>\<open>self.coordination_locks.get(agent, False)\<close>.\<close>

definition is_locked :: "TemporalCoordinator \<Rightarrow> string \<Rightarrow> bool" where
  "is_locked c a = (case coordination_locks c a of None \<Rightarrow> False | Some b \<Rightarrow> b)"

text \<open>\<^verbatim>\<open>for agent in agents: self.coordination_locks[agent] = b\<close>.\<close>

definition set_locks :: "TemporalCoordinator \<Rightarrow> string list \<Rightarrow> bool \<Rightarrow> TemporalCoordinator" where
  "set_locks c agents b =
     c\<lparr>coordination_locks := fold (\<lambda>a m. m(a \<mapsto> b)) agents (coordination_locks c)\<rparr>"

text \<open>
  \<^verbatim>\<open>coordinate_operation(operation, agents)\<close> suspends once, at
  \<^verbatim>\<open>await asyncio.sleep(0.1)\<close>, and other coroutines of the event loop run on the same
  coordinator meanwhile. The model cuts the coroutine there. \<open>coordinate_begin\<close> is the
  part before the suspension: \<open>None\<close> is the early \<^verbatim>\<open>return False\<close>, otherwise it gives
  the state in which the coroutine suspends. \<open>t0\<close> is \<^verbatim>\<open>int(time.time())\<close>, and
  \<open>clk\<close> the two clock readings of the call to \<^verbatim>\<open>register_event\<close>.
\<close>

definition coordinate_begin ::
  "TemporalCoordinator \<Rightarrow> string \<Rightarrow> string list \<Rightarrow> int \<Rightarrow> int \<times> string
     \<Rightarrow> TemporalCoordinator option" where
  "coordinate_begin c op agents t0 clk =
     (let coordination_id = ''coord_'' @ op @ ''_'' @ str_int t0 in
      if list_ex (is_locked c) agents then None
      else Some (snd (register_event (set_locks c agents True)
                        ''coordination_start'' ''chronos''
                        [(''coordination_id'', PStr coordination_id),
                         (''operation'', PStr op),
                         (''agents'', PList (map PStr agents))]
                        (fst clk) (snd clk))))"

text \<open>The part after the suspension, when the coroutine is resumed normally.\<close>

definition coordinate_finish ::
  "TemporalCoordinator \<Rightarrow> string \<Rightarrow> string list \<Rightarrow> int \<Rightarrow> int \<times> string
     \<Rightarrow> (exn + bool) \<times> TemporalCoordinator" where
  "coordinate_finish c op agents t0 clk =
     (let coordination_id = ''coord_'' @ op @ ''_'' @ str_int t0 in
      (Inr True, snd (register_event (set_locks c agents False)
                    ''coordination_complete'' ''chronos''
                    [(''coordination_id'', PStr coordination_id),
                     (''status'', PStr ''success'')]
                    (fst clk) (snd clk))))"

text \<open>The \<^verbatim>\<open>except Exception\<close> branch.\<close>

definition coordinate_failed ::
  "TemporalCoordinator \<Rightarrow> string list \<Rightarrow> (exn + bool) \<times> TemporalCoordinator" where
  "coordinate_failed c agents = (Inr False, set_locks c agents False)"

text \<open>
  What the suspension gives back: the coordinator as the other coroutines left it, with
  the coroutine resumed normally, or with an exception raised into it at the
  \<^verbatim>\<open>await\<close>. The handler is \<^verbatim>\<open>except Exception\<close>: \<open>Raised\<close> is an exception that
  it catches, \<open>Interrupted\<close> one that it does not, \<^verbatim>\<open>asyncio.CancelledError\<close> when the
  task is cancelled or another \<^verbatim>\<open>BaseException\<close> such as \<^verbatim>\<open>KeyboardInterrupt\<close>. The
  latter leaves the coroutine at once, so the call raises instead of returning and the
  release loops are not run.
\<close>

datatype awaited =
    Resumed TemporalCoordinator
  | Raised TemporalCoordinator
  | Interrupted TemporalCoordinator

text \<open>
  The whole call: \<open>Inr b\<close> is \<^verbatim>\<open>return b\<close>, \<open>Inl x\<close> the exception that leaves the
  call, each with the coordinator at that moment.
\<close>

definition coordinate_operation ::
  "(TemporalCoordinator \<Rightarrow> awaited) \<Rightarrow> TemporalCoordinator \<Rightarrow> string \<Rightarrow> string list \<Rightarrow> int
     \<Rightarrow> int \<times> string \<Rightarrow> int \<times> string \<Rightarrow> (exn + bool) \<times> TemporalCoordinator" where
  "coordinate_operation work c op agents t0 clk1 clk2 =
     (case coordinate_begin c op agents t0 clk1 of
        None \<Rightarrow> (Inr False, c)
      | Some c1 \<Rightarrow>
          (case work c1 of
             Resumed c2 \<Rightarrow> coordinate_finish c2 op agents t0 clk2
           | Raised c2 \<Rightarrow> coordinate_failed c2 agents
           | Interrupted c2 \<Rightarrow> (Inl CancelledError, c2)))"

text \<open>
  \<^verbatim>\<open>get_event_timeline(agent=None)\<close>: \<^verbatim>\<open>if agent:\<close> is false for \<^verbatim>\<open>None\<close> and for the
  empty string; \<^verbatim>\<open>sorted\<close> is stable, as \<^const>\<open>sort_key\<close> is.
\<close>

definition get_event_timeline :: "TemporalCoordinator \<Rightarrow> string option \<Rightarrow> TemporalEvent list" where
  "get_event_timeline c ag =
     (case ag of
        Some a \<Rightarrow> if a \<noteq> [] then filter (\<lambda>e. agent e = a) (events c)
                  else sort_key sequence (events c)
      | None \<Rightarrow> sort_key sequence (events c))"

text \<open>
  \<^verbatim>\<open>ChronosService._verify_temporal_consistency\<close>: the loop over
  \<^verbatim>\<open>enumerate(events)\<close> at index \<open>i\<close>.
\<close>

fun check_sequence :: "nat \<Rightarrow> TemporalEvent list \<Rightarrow> bool" where
  "check_sequence i [] = True"
| "check_sequence i (e # es) =
     (if sequence e \<noteq> int i + 1 then False else check_sequence (Suc i) es)"

definition verify_temporal_consistency :: "TemporalCoordinator \<Rightarrow> bool" where
  "verify_temporal_consistency c = check_sequence 0 (get_event_timeline c None)"

text \<open>A run of \<^verbatim>\<open>register_event\<close> calls: type, agent, payload and the two clock readings.\<close>

type_synonym register_call = "string \<times> string \<times> pydict \<times> int \<times> string"

fun register_step :: "TemporalCoordinator \<Rightarrow> register_call \<Rightarrow> TemporalCoordinator" where
  "register_step c (ty, ag, d, ms, stamp) = snd (register_event c ty ag d ms stamp)"

definition register_run :: "register_call list \<Rightarrow> TemporalCoordinator" where
  "register_run calls = foldl register_step init_coordinator calls"

section \<open>ProofEngine\<close>

text \<open>
  \<^verbatim>\<open>@dataclass class ConsolidationProof\<close>; \<^verbatim>\<open>operation\<close> and \<^verbatim>\<open>timestamp\<close> are
  \<open>proof_operation\<close> and \<open>proof_timestamp\<close> here.
\<close>

record ConsolidationProof =
  proof_id :: string
  proof_operation :: string
  files_affected :: "string list"
  before_hash :: string
  after_hash :: string
  proof_timestamp :: string
  verified :: bool

record ProofEngine =
  proofs :: "ConsolidationProof list"

definition init_proof_engine :: ProofEngine where
  "init_proof_engine = \<lparr>proofs = []\<rparr>"

text \<open>
  What the file system answers for a path: \<^verbatim>\<open>Path(p).exists()\<close> is false, or the file
  is read, or the attempt raises (which the inner handler logs and passes over).
\<close>

datatype file_state = Missing | Content string | Unreadable

type_synonym filesystem = "string \<Rightarrow> file_state"

text \<open>The loop that collects the contents, and the digest of their concatenation.\<close>

fun read_files :: "filesystem \<Rightarrow> string list \<Rightarrow> string list" where
  "read_files fs [] = []"
| "read_files fs (p # ps) =
     (case fs p of
        Content b \<Rightarrow> b # read_files fs ps
      | Missing \<Rightarrow> read_files fs ps
      | Unreadable \<Rightarrow> read_files fs ps)"

definition state_hash :: "env \<Rightarrow> filesystem \<Rightarrow> string list \<Rightarrow> string" where
  "state_hash e fs files = sha e (concat (read_files fs files))"

text \<open>
  \<^verbatim>\<open>generate_consolidation_proof(operation, files)\<close>; \<open>now\<close> is the text of
  \<^verbatim>\<open>time.time()\<close>.
\<close>

definition generate_consolidation_proof ::
  "env \<Rightarrow> filesystem \<Rightarrow> ProofEngine \<Rightarrow> string \<Rightarrow> string list \<Rightarrow> string \<Rightarrow> string
     \<Rightarrow> ConsolidationProof \<times> ProofEngine" where
  "generate_consolidation_proof e fs pe op files now stamp =
     (let proof = \<lparr>proof_id = sha e (op @ ''_'' @ now),
                   proof_operation = op,
                   files_affected = files,
                   before_hash = state_hash e fs files,
                   after_hash = [],
                   proof_timestamp = stamp,
                   verified = False\<rparr>
      in (proof, pe\<lparr>proofs := proofs pe @ [proof]\<rparr>))"

text \<open>
  \<^verbatim>\<open>next((p for p in self.proofs if p.proof_id == proof_id), None)\<close> is
  \<^const>\<open>find\<close>; the assignments to the object found change the first proof of the list
  that has the identifier.
\<close>

fun update_first :: "('a \<Rightarrow> bool) \<Rightarrow> ('a \<Rightarrow> 'a) \<Rightarrow> 'a list \<Rightarrow> 'a list" where
  "update_first P f [] = []"
| "update_first P f (x # xs) = (if P x then f x # xs else x # update_first P f xs)"

definition finalize_proof ::
  "env \<Rightarrow> filesystem \<Rightarrow> ProofEngine \<Rightarrow> string \<Rightarrow> string list \<Rightarrow> bool \<times> ProofEngine" where
  "finalize_proof e fs pe pid files =
     (case find (\<lambda>p. proof_id p = pid) (proofs pe) of
        None \<Rightarrow> (False, pe)
      | Some proof \<Rightarrow>
          (True, pe\<lparr>proofs := update_first (\<lambda>p. proof_id p = pid)
                      (\<lambda>p. p\<lparr>after_hash := state_hash e fs files, verified := True\<rparr>)
                      (proofs pe)\<rparr>))"

definition verify_integrity :: "ProofEngine \<Rightarrow> string \<Rightarrow> bool" where
  "verify_integrity pe pid =
     (case find (\<lambda>p. proof_id p = pid) (proofs pe) of
        None \<Rightarrow> False
      | Some proof \<Rightarrow>
          verified proof \<and> before_hash proof \<noteq> after_hash proof
          \<and> length (files_affected proof) > 0)"

section \<open>The linkage invariant of the ledger\<close>

lemma genesis_hash_zeros: "genesis_hash = replicate 64 CHR ''0''"
  by (simp add: genesis_hash_def numeral_eq_Suc)

text \<open>
  The previous-hash and data-hash of the chain's transactions, in chain order, and the
  property that each previous-hash is the data-hash before it, starting from \<open>g\<close>.
\<close>

fun linked :: "string \<Rightarrow> (string \<times> string) list \<Rightarrow> bool" where
  "linked g [] = True"
| "linked g ((p, d) # ls) = (p = g \<and> linked d ls)"

definition links :: "BlockchainOrchestrator \<Rightarrow> (string \<times> string) list" where
  "links s = map (\<lambda>r. (previous_hash (objects s ! r), data_hash (objects s ! r))) (chain s)"

definition ledger_inv :: "BlockchainOrchestrator \<Rightarrow> bool" where
  "ledger_inv s = (list_all (\<lambda>r. r < length (objects s)) (chain s) \<and> linked genesis_hash (links s))"

lemma linked_snoc:
  "linked g (ls @ [(p, d)]) = (linked g ls \<and> p = (if ls = [] then g else snd (last ls)))"
  by (induction g ls rule: linked.induct) auto

lemma linked_nth:
  "linked g ls \<Longrightarrow> i < length ls \<Longrightarrow>
     fst (ls ! i) = (if i = 0 then g else snd (ls ! (i - 1)))"
proof (induction g ls arbitrary: i rule: linked.induct)
  case (1 g)
  then show ?case by simp
next
  case (2 g p d ls)
  show ?case
  proof (cases i)
    case 0
    with 2 show ?thesis by simp
  next
    case (Suc j)
    with 2 have "fst (ls ! j) = (if j = 0 then d else snd (ls ! (j - 1)))" by simp
    with Suc show ?thesis by (cases j) simp_all
  qed
qed

lemma latest_hash_links:
  "ledger_inv s \<Longrightarrow> latest_hash s = Some (if links s = [] then genesis_hash else snd (last (links s)))"
  by (cases "chain s" rule: rev_cases)
     (auto simp: latest_hash_def ledger_inv_def links_def deref_def list_all_iff)

lemma links_status:
  "r < length (objects s) \<Longrightarrow>
   links (s\<lparr>objects := (objects s)[r := (objects s ! r)\<lparr>status := x\<rparr>]\<rparr>) = links s"
  by (auto simp: links_def nth_list_update)

lemma ledger_inv_init: "ledger_inv init_orchestrator"
  by (simp add: ledger_inv_def init_orchestrator_def links_def)

lemma ledger_inv_construct: "ledger_inv s \<Longrightarrow> ledger_inv (s\<lparr>objects := objects s @ [tx]\<rparr>)"
  by (auto simp: ledger_inv_def links_def list_all_iff nth_append cong: map_cong)

lemma ledger_inv_create:
  "ledger_inv s \<Longrightarrow> create_transaction e s op d now stamp = Inr (r, s') \<Longrightarrow> ledger_inv s'"
  by (auto simp: create_transaction_def ledger_inv_construct split: option.splits)

lemma ledger_inv_add:
  assumes "ledger_inv s"
  shows "ledger_inv (snd (add_transaction s r))"
proof (cases "deref s r")
  case None
  with assms show ?thesis by (simp add: add_transaction_def)
next
  case (Some tx)
  then have r: "r < length (objects s)" and tx: "tx = objects s ! r"
    by (auto simp: deref_def split: if_splits)
  have lh: "latest_hash s = Some (if links s = [] then genesis_hash else snd (last (links s)))"
    using assms by (rule latest_hash_links)
  let ?upd = "\<lambda>x. s\<lparr>objects := (objects s)[r := tx\<lparr>status := x\<rparr>]\<rparr>"
  have same: "links (?upd x) = links s" for x
    using links_status [OF r] tx by simp
  have rng: "list_all (\<lambda>q. q < length (objects (?upd x))) (chain s)" for x
    using assms by (simp add: ledger_inv_def)
  show ?thesis
  proof (cases "validate_transaction s tx")
    case None
    with Some assms show ?thesis by (simp add: add_transaction_def)
  next
    case (Some b)
    show ?thesis
    proof (cases b)
      case False
      with Some \<open>deref s r = Some tx\<close> have "snd (add_transaction s r) = ?upd ''rejected''"
        by (simp add: add_transaction_def)
      moreover have "ledger_inv (?upd ''rejected'')"
        using assms same [of "''rejected''"] rng [of "''rejected''"]
        by (simp add: ledger_inv_def)
      ultimately show ?thesis by simp
    next
      case True
      with Some have prev: "previous_hash tx = (if links s = [] then genesis_hash else snd (last (links s)))"
        using lh by (auto simp: validate_transaction_def split: if_splits)
      from True Some \<open>deref s r = Some tx\<close>
      have eq: "snd (add_transaction s r) = (?upd ''confirmed'')\<lparr>chain := chain s @ [r]\<rparr>"
        by (simp add: add_transaction_def)
      have "links ((?upd ''confirmed'')\<lparr>chain := chain s @ [r]\<rparr>)
              = links (?upd ''confirmed'') @ [(previous_hash tx, data_hash tx)]"
        using r by (simp add: links_def)
      then have "links ((?upd ''confirmed'')\<lparr>chain := chain s @ [r]\<rparr>)
              = links s @ [(previous_hash tx, data_hash tx)]"
        using same [of "''confirmed''"] by simp
      then show ?thesis
        using assms prev r rng [of "''confirmed''"] unfolding eq
        by (simp add: ledger_inv_def linked_snoc)
    qed
  qed
qed

lemma ledger_inv_step: "ledger_inv s \<Longrightarrow> ledger_inv (ledger_step e s c)"
  by (cases c) (auto simp: ledger_inv_construct ledger_inv_add ledger_inv_create split: sum.splits)

lemma ledger_inv_foldl: "ledger_inv s \<Longrightarrow> ledger_inv (foldl (ledger_step e) s calls)"
  by (induction calls arbitrary: s) (simp_all add: ledger_inv_step)

lemma ledger_inv_run: "ledger_inv (ledger_run e calls)"
  by (simp add: ledger_run_def ledger_inv_foldl ledger_inv_init)

lemma ledger_inv_link_ok:
  assumes "ledger_inv s" and "i < length (chain s)"
  shows "link_ok s i"
proof -
  from assms have rng: "\<And>j. j < length (chain s) \<Longrightarrow> chain s ! j < length (objects s)"
    by (simp add: ledger_inv_def list_all_length)
  from assms have "fst (links s ! i) = (if i = 0 then genesis_hash else snd (links s ! (i - 1)))"
    by (intro linked_nth) (simp_all add: ledger_inv_def links_def)
  with assms(2) rng [of i] rng [of "i - 1"] show ?thesis
    by (auto simp: link_ok_def deref_def links_def genesis_hash_zeros)
qed

text \<open>
  C1. After every run of \<^verbatim>\<open>create_transaction\<close> and \<^verbatim>\<open>add_transaction\<close> calls on a
  new ledger (with any transaction objects the caller builds in between), every element
  of the chain is a transaction object; the one at index 0 has the genesis value, which
  is 64 characters \<open>0\<close>, as its previous hash, and the one at an index \<open>i > 0\<close> has the
  data hash of the transaction at \<open>i - 1\<close> as its previous hash.
\<close>

theorem hash_chain_linkage:
  "genesis_hash = replicate 64 CHR ''0'' \<and>
   (\<forall>i < length (chain (ledger_run e calls)). link_ok (ledger_run e calls) i)"
  using ledger_inv_link_ok [OF ledger_inv_run] genesis_hash_zeros by blast

section \<open>Examples on the ledger\<close>

text \<open>
  A genesis transaction is created and added, then a second one. \<open>created\<close> is the
  object that \<^verbatim>\<open>create_transaction\<close> returns, and \<open>assign_previous_hash\<close> a caller's
  assignment to the \<^verbatim>\<open>previous_hash\<close> attribute of an object.
\<close>

definition demo_calls :: "ledger_call list" where
  "demo_calls =
     [Create ''genesis'' [(''message'', PStr ''Genesis'')] ''1.0'' ''T1'',
      Add 0,
      Create ''consolidation_event'' [(''operation'', PStr ''merge'')] ''2.0'' ''T2'',
      Add 1]"

definition genesis_tx :: BlockchainTransaction where
  "genesis_tx =
     \<lparr>tx_id = ''h:genesis_1.0_u:message'', timestamp = ''T1'', operation = ''genesis'',
      data_hash = ''h:s:message'', previous_hash = genesis_hash,
      merkle_root = ''h:u:message'', status = ''pending''\<rparr>"

definition second_tx :: BlockchainTransaction where
  "second_tx =
     \<lparr>tx_id = ''h:consolidation_event_2.0_u:operation'', timestamp = ''T2'',
      operation = ''consolidation_event'',
      data_hash = ''h:s:operation'', previous_hash = ''h:s:message'',
      merkle_root = ''h:u:operation'', status = ''pending''\<rparr>"

definition genesis_added :: BlockchainOrchestrator where
  "genesis_added =
     \<lparr>objects = [genesis_tx\<lparr>status := ''confirmed''\<rparr>], chain = [0], pending_transactions = []\<rparr>"

definition created ::
  "env \<Rightarrow> BlockchainOrchestrator \<Rightarrow> string \<Rightarrow> pydict \<Rightarrow> string \<Rightarrow> string
     \<Rightarrow> BlockchainTransaction option" where
  "created e s op d now stamp =
     (case create_transaction e s op d now stamp of
        Inl _ \<Rightarrow> None
      | Inr (r, s') \<Rightarrow> deref s' r)"

definition assign_previous_hash ::
  "BlockchainOrchestrator \<Rightarrow> ref \<Rightarrow> string \<Rightarrow> BlockchainOrchestrator" where
  "assign_previous_hash s r h =
     s\<lparr>objects := (objects s)[r := (objects s ! r)\<lparr>previous_hash := h\<rparr>]\<rparr>"

lemmas ledger_defs =
  toy_env_def create_transaction_def add_transaction_def validate_transaction_def
  latest_hash_def deref_def init_orchestrator_def calculate_hash_def
  calculate_merkle_root_def merkle_reduce.simps genesis_hash_def
  genesis_tx_def second_tx_def genesis_added_def

lemma create_genesis:
  "create_transaction toy_env init_orchestrator ''genesis'' [(''message'', PStr ''Genesis'')]
       ''1.0'' ''T1'' =
     Inr (0, \<lparr>objects = [genesis_tx], chain = [], pending_transactions = []\<rparr>)"
  by (simp add: ledger_defs)

lemma add_genesis:
  "add_transaction \<lparr>objects = [genesis_tx], chain = [], pending_transactions = []\<rparr> 0
     = (True, genesis_added)"
  by (simp add: ledger_defs)

lemma create_second:
  "create_transaction toy_env genesis_added ''consolidation_event''
       [(''operation'', PStr ''merge'')] ''2.0'' ''T2'' =
     Inr (1, \<lparr>objects = [genesis_tx\<lparr>status := ''confirmed''\<rparr>, second_tx],
              chain = [0], pending_transactions = []\<rparr>)"
  by (simp add: ledger_defs)

lemma add_second:
  "add_transaction \<lparr>objects = [genesis_tx\<lparr>status := ''confirmed''\<rparr>, second_tx],
                    chain = [0], pending_transactions = []\<rparr> 1
     = (True, \<lparr>objects = [genesis_tx\<lparr>status := ''confirmed''\<rparr>,
                           second_tx\<lparr>status := ''confirmed''\<rparr>],
               chain = [0, 1], pending_transactions = []\<rparr>)"
  by (simp add: ledger_defs)

lemma demo_run:
  "ledger_run toy_env demo_calls =
     \<lparr>objects = [genesis_tx\<lparr>status := ''confirmed''\<rparr>, second_tx\<lparr>status := ''confirmed''\<rparr>],
      chain = [0, 1], pending_transactions = []\<rparr>"
  by (simp add: ledger_run_def demo_calls_def create_genesis add_genesis create_second
      add_second del: One_nat_def)

theorem hash_chain_linkage_witness:
  "1 < length (chain (ledger_run toy_env demo_calls))
   \<and> link_ok (ledger_run toy_env demo_calls) 1"
proof -
  have len: "1 < length (chain (ledger_run toy_env demo_calls))"
    by (simp add: demo_run)
  with hash_chain_linkage [of toy_env demo_calls] show ?thesis by blast
qed

section \<open>Merkle root of a new transaction\<close>

lemma merkle_reduce_single: "merkle_reduce e [h] = [h]"
  by (simp add: merkle_reduce.simps)

lemma calculate_merkle_root_single: "calculate_merkle_root e [p] = calculate_hash e p"
  by (simp add: calculate_merkle_root_def merkle_reduce_single)

text \<open>
  C3, as amended. The list handed to \<^verbatim>\<open>calculate_merkle_root\<close> has one element, the
  loop \<^verbatim>\<open>while len(hashes) > 1\<close> is not entered, and the root is the hash of the
  serialised payload itself: the transaction that \<^verbatim>\<open>create_transaction\<close> returns has
  \<open>merkle_root = hash(json.dumps(data))\<close>.
\<close>

theorem merkle_root_of_created:
  assumes "create_transaction e s op d now stamp = Inr (r, s')"
  shows "\<exists>j tx. dumps e False d = Some j \<and> deref s' r = Some tx
           \<and> merkle_root tx = calculate_hash e j"
  using assms
  by (auto simp: create_transaction_def deref_def calculate_merkle_root_single
      split: option.splits)

theorem merkle_root_of_created_witness:
  "\<exists>j tx. dumps toy_env False [(''message'', PStr ''Genesis'')] = Some j
      \<and> deref \<lparr>objects = [genesis_tx], chain = [], pending_transactions = []\<rparr> 0 = Some tx
      \<and> merkle_root tx = calculate_hash toy_env j"
  by (rule merkle_root_of_created [OF create_genesis])

text \<open>
  C3 as stated fails: for the payload serialised as \<open>u:message\<close> the root is the hash
  \<open>h:u:message\<close>, not the hash of that hash concatenated with itself.
\<close>

theorem merkle_root_counterexample:
  "dumps toy_env False [(''message'', PStr ''Genesis'')] = Some ''u:message'' \<and>
   map_option merkle_root
     (created toy_env init_orchestrator ''genesis'' [(''message'', PStr ''Genesis'')] ''1.0'' ''T1'')
     = Some ''h:u:message'' \<and>
   calculate_hash toy_env (calculate_hash toy_env ''u:message'' @ calculate_hash toy_env ''u:message'')
     = ''h:h:u:messageh:u:message'' \<and>
   map_option merkle_root
     (created toy_env init_orchestrator ''genesis'' [(''message'', PStr ''Genesis'')] ''1.0'' ''T1'')
     \<noteq> Some (calculate_hash toy_env
                (calculate_hash toy_env ''u:message'' @ calculate_hash toy_env ''u:message''))"
  by (simp add: created_def create_genesis deref_def)
     (simp add: toy_env_def calculate_hash_def genesis_tx_def)

section \<open>What creating a transaction leaves alone\<close>

text \<open>
  C10. \<^verbatim>\<open>create_transaction\<close> changes neither the chain nor the pending list: it
  allocates one new object, pending, whose previous hash is the hash of the tail it read.
  Of the calls on the ledger only \<^verbatim>\<open>add_transaction\<close> changes the chain, and then by
  appending its argument.
\<close>

theorem create_transaction_frame:
  assumes "create_transaction e s op d now stamp = Inr (r, s')"
  shows "chain s' = chain s \<and> pending_transactions s' = pending_transactions s
         \<and> r = length (objects s)
         \<and> (\<exists>tx. objects s' = objects s @ [tx] \<and> status tx = ''pending''
                \<and> latest_hash s = Some (previous_hash tx))
         \<and> (chain (ledger_step e s c) \<noteq> chain s
              \<longrightarrow> (\<exists>q. c = Add q \<and> chain (ledger_step e s c) = chain s @ [q]))"
proof -
  have grow: "chain (ledger_step e s c) \<noteq> chain s
              \<longrightarrow> (\<exists>q. c = Add q \<and> chain (ledger_step e s c) = chain s @ [q])"
    by (cases c)
       (auto simp: create_transaction_def add_transaction_def
          split: option.splits sum.splits bool.splits)
  from assms show ?thesis using grow
    by (auto simp: create_transaction_def split: option.splits)
qed

theorem create_transaction_frame_witness:
  "create_transaction toy_env \<lparr>objects = [genesis_tx], chain = [], pending_transactions = []\<rparr>
       ''consolidation_event'' [(''operation'', PStr ''merge'')] ''2.0'' ''T2''
     = Inr (1, \<lparr>objects = [genesis_tx, second_tx\<lparr>previous_hash := genesis_hash\<rparr>],
                chain = [], pending_transactions = []\<rparr>)
   \<and> chain (ledger_step toy_env
              \<lparr>objects = [genesis_tx], chain = [], pending_transactions = []\<rparr> (Add 0)) \<noteq> []
   \<and> (\<exists>q. Add 0 = Add q
          \<and> chain (ledger_step toy_env
              \<lparr>objects = [genesis_tx], chain = [], pending_transactions = []\<rparr> (Add 0)) = [] @ [q])"
proof -
  let ?s = "\<lparr>objects = [genesis_tx], chain = [], pending_transactions = []\<rparr>"
  have c: "create_transaction toy_env ?s
       ''consolidation_event'' [(''operation'', PStr ''merge'')] ''2.0'' ''T2''
     = Inr (1, \<lparr>objects = [genesis_tx, second_tx\<lparr>previous_hash := genesis_hash\<rparr>],
                chain = [], pending_transactions = []\<rparr>)"
    by (simp add: ledger_defs)
  have g: "chain (ledger_step toy_env ?s (Add 0)) \<noteq> chain ?s"
    by (simp add: add_genesis genesis_added_def)
  from create_transaction_frame [OF c, of "Add 0"] g c show ?thesis by simp
qed

section \<open>A rejected transaction\<close>

text \<open>
  C8. When the transaction handed to \<^verbatim>\<open>add_transaction\<close> has an empty id or
  timestamp, or a previous hash that is not the tail's data hash (as a transaction
  handed in again after the tail has advanced has), the call returns false without
  raising and sets the status of that transaction to rejected; the chain is left as it
  was, the transaction is not appended, and no other transaction object is touched.
\<close>

theorem add_transaction_rejects:
  assumes "deref s r = Some tx"
    and "tx_id tx = [] \<or> timestamp tx = []
         \<or> (\<exists>expected. latest_hash s = Some expected \<and> previous_hash tx \<noteq> expected)"
  shows "add_transaction s r
           = (False, s\<lparr>objects := (objects s)[r := tx\<lparr>status := ''rejected''\<rparr>]\<rparr>)
         \<and> chain (snd (add_transaction s r)) = chain s
         \<and> deref (snd (add_transaction s r)) r = Some (tx\<lparr>status := ''rejected''\<rparr>)
         \<and> (\<forall>q. q \<noteq> r \<longrightarrow> deref (snd (add_transaction s r)) q = deref s q)"
proof -
  from assms(2) have v: "validate_transaction s tx = Some False"
    by (auto simp: validate_transaction_def)
  with assms(1) have 1: "add_transaction s r
      = (False, s\<lparr>objects := (objects s)[r := tx\<lparr>status := ''rejected''\<rparr>]\<rparr>)"
    by (simp add: add_transaction_def)
  from assms(1) have "r < length (objects s)"
    by (simp add: deref_def split: if_splits)
  then show ?thesis
    unfolding 1 by (simp add: deref_def)
qed

theorem add_transaction_rejects_witness:
  "deref genesis_added 0 = Some (genesis_tx\<lparr>status := ''confirmed''\<rparr>)
   \<and> latest_hash genesis_added = Some ''h:s:message''
   \<and> previous_hash (genesis_tx\<lparr>status := ''confirmed''\<rparr>) \<noteq> ''h:s:message''
   \<and> add_transaction genesis_added 0
       = (False, genesis_added\<lparr>objects := [genesis_tx\<lparr>status := ''rejected''\<rparr>]\<rparr>)
   \<and> chain (snd (add_transaction genesis_added 0)) = chain genesis_added
   \<and> deref (snd (add_transaction genesis_added 0)) 1 = deref genesis_added 1"
proof -
  have d: "deref genesis_added 0 = Some (genesis_tx\<lparr>status := ''confirmed''\<rparr>)"
    by (simp add: deref_def genesis_added_def)
  have l: "latest_hash genesis_added = Some ''h:s:message''"
    by (simp add: latest_hash_def deref_def genesis_added_def genesis_tx_def)
  have p: "previous_hash (genesis_tx\<lparr>status := ''confirmed''\<rparr>) \<noteq> ''h:s:message''"
    by (simp add: genesis_tx_def genesis_hash_def)
  from l p have h: "tx_id (genesis_tx\<lparr>status := ''confirmed''\<rparr>) = []
      \<or> timestamp (genesis_tx\<lparr>status := ''confirmed''\<rparr>) = []
      \<or> (\<exists>expected. latest_hash genesis_added = Some expected
            \<and> previous_hash (genesis_tx\<lparr>status := ''confirmed''\<rparr>) \<noteq> expected)"
    by blast
  have u: "(objects genesis_added)[0 := genesis_tx\<lparr>status := ''confirmed'', status := ''rejected''\<rparr>]
             = [genesis_tx\<lparr>status := ''rejected''\<rparr>]"
    by (simp add: genesis_added_def)
  note r = add_transaction_rejects [OF d h]
  from r have "add_transaction genesis_added 0
       = (False, genesis_added\<lparr>objects := [genesis_tx\<lparr>status := ''rejected''\<rparr>]\<rparr>)"
    using u by simp
  moreover from r have "chain (snd (add_transaction genesis_added 0)) = chain genesis_added"
    by blast
  moreover from r
  have "\<forall>q. q \<noteq> 0 \<longrightarrow> deref (snd (add_transaction genesis_added 0)) q = deref genesis_added q"
    by blast
  then have "deref (snd (add_transaction genesis_added 0)) 1 = deref genesis_added 1"
    by (rule allE [of _ 1]) simp
  ultimately show ?thesis using d l p by blast
qed

section \<open>Verification of the chain\<close>

lemma link_ok_eval:
  "link_ok s i =
     (case deref s (chain s ! i) of
        None \<Rightarrow> False
      | Some tx \<Rightarrow>
          if i = 0 then previous_hash tx = genesis_hash
          else (case deref s (chain s ! (i - 1)) of
                  None \<Rightarrow> False
                | Some p \<Rightarrow> previous_hash tx = data_hash p))"
  unfolding link_ok_def genesis_hash_zeros by (rule refl)

lemma link_ok_genesis:
  "deref s (chain s ! 0) = Some tx \<Longrightarrow> link_ok s 0 = (previous_hash tx = genesis_hash)"
  by (simp add: link_ok_def genesis_hash_zeros)

lemma link_ok_later:
  "i > 0 \<Longrightarrow> deref s (chain s ! i) = Some tx \<Longrightarrow> deref s (chain s ! (i - 1)) = Some p \<Longrightarrow>
     link_ok s i = (previous_hash tx = data_hash p)"
  by (simp add: link_ok_def)

text \<open>
  What the loop answers from index \<open>i\<close> on, when every element of the chain is a
  transaction object: the first index from \<open>i\<close> whose link is broken decides.
\<close>

lemma verify_links_first_break:
  assumes "list_all (\<lambda>r. r < length (objects s)) (chain s)"
    and "i \<le> length (chain s)"
  shows "verify_links s i (drop i (chain s)) =
           (case find (\<lambda>j. \<not> link_ok s j) [i..<length (chain s)] of
              None \<Rightarrow> (True, [Consolidation_chain_verified_successfully])
            | Some j \<Rightarrow>
                (False, [if j = 0 then Genesis_transaction_invalid
                         else Hash_chain_broken_at_transaction j]))"
  using assms(2)
proof (induction "length (chain s) - i" arbitrary: i)
  case 0
  then show ?case by simp
next
  case (Suc n)
  then have i: "i < length (chain s)" by simp
  have obj: "\<And>j. j < length (chain s) \<Longrightarrow> deref s (chain s ! j) = Some (objects s ! (chain s ! j))"
    using assms(1) by (simp add: list_all_length deref_def)
  have d: "drop i (chain s) = chain s ! i # drop (Suc i) (chain s)"
    using i by (simp add: Cons_nth_drop_Suc)
  have u: "[i..<length (chain s)] = i # [Suc i..<length (chain s)]"
    using i by (simp add: upt_conv_Cons)
  have IH: "verify_links s (Suc i) (drop (Suc i) (chain s)) =
           (case find (\<lambda>j. \<not> link_ok s j) [Suc i..<length (chain s)] of
              None \<Rightarrow> (True, [Consolidation_chain_verified_successfully])
            | Some j \<Rightarrow>
                (False, [if j = 0 then Genesis_transaction_invalid
                         else Hash_chain_broken_at_transaction j]))"
    using Suc.hyps(1) [of "Suc i"] Suc.hyps(2) i by simp
  show ?case
  proof (cases "i = 0")
    case True
    then show ?thesis
      unfolding d u
      using i obj [of 0] IH link_ok_genesis [OF obj [of 0]]
      by simp
  next
    case False
    then have p: "i - 1 < length (chain s)" and pos: "i > 0" using i by simp_all
    show ?thesis
      unfolding d u
      using False IH obj [OF i] obj [OF p] link_ok_later [OF pos obj [OF i] obj [OF p]]
      by simp
  qed
qed

text \<open>
  C7, as amended. \<^verbatim>\<open>verify_consolidation_chain\<close> visits the transactions in order and
  stops at the first broken link. It returns a boolean: false when there is a broken
  link, true when every link, the genesis link included, is correct. The index of the
  first break is not returned; it goes to the log, as the line
  \<^verbatim>\<open>Hash chain broken at transaction i\<close>, or \<^verbatim>\<open>Genesis transaction invalid\<close> for index 0,
  and it is the only line logged.
\<close>

theorem verify_consolidation_chain_first_break:
  assumes "list_all (\<lambda>r. r < length (objects s)) (chain s)"
  shows "verify_consolidation_chain s =
           (case first_break s of
              None \<Rightarrow>
                (True, if chain s = [] then [] else [Consolidation_chain_verified_successfully])
            | Some j \<Rightarrow>
                (False, [if j = 0 then Genesis_transaction_invalid
                         else Hash_chain_broken_at_transaction j]))"
  using verify_links_first_break [OF assms, of 0]
  by (simp add: verify_consolidation_chain_def first_break_def)

text \<open>
  The second transaction of the example chain is given a wrong previous hash: the
  answer is false, and the log names index 1.
\<close>

theorem verify_consolidation_chain_first_break_witness:
  "list_all (\<lambda>r. r < length (objects (assign_previous_hash (ledger_run toy_env demo_calls) 1 ''x'')))
     (chain (assign_previous_hash (ledger_run toy_env demo_calls) 1 ''x''))
   \<and> first_break (assign_previous_hash (ledger_run toy_env demo_calls) 1 ''x'') = Some 1
   \<and> verify_consolidation_chain (assign_previous_hash (ledger_run toy_env demo_calls) 1 ''x'')
       = (False, [Hash_chain_broken_at_transaction 1])"
proof -
  let ?s = "assign_previous_hash (ledger_run toy_env demo_calls) 1 ''x''"
  have a: "list_all (\<lambda>r. r < length (objects ?s)) (chain ?s)"
    by (simp add: demo_run assign_previous_hash_def)
  have b: "first_break ?s = Some 1"
    by (simp add: demo_run assign_previous_hash_def first_break_def link_ok_eval deref_def
        upt_rec [of 0] upt_rec [of 1] genesis_tx_def second_tx_def genesis_hash_def)
  from verify_consolidation_chain_first_break [OF a] a b show ?thesis by simp
qed

text \<open>
  C7 as stated fails where it says that the index is returned: a chain broken at index
  0 and a chain broken at index 1 get the same answer, \<open>False\<close>.
\<close>

theorem verify_consolidation_chain_counterexample:
  "first_break (assign_previous_hash (ledger_run toy_env demo_calls) 0 ''x'') = Some 0
   \<and> first_break (assign_previous_hash (ledger_run toy_env demo_calls) 1 ''x'') = Some 1
   \<and> fst (verify_consolidation_chain (assign_previous_hash (ledger_run toy_env demo_calls) 0 ''x''))
       = False
   \<and> fst (verify_consolidation_chain (assign_previous_hash (ledger_run toy_env demo_calls) 1 ''x''))
       = False"
  by (simp add: demo_run assign_previous_hash_def first_break_def link_ok_eval deref_def
      upt_rec [of 0] upt_rec [of 1] genesis_tx_def second_tx_def genesis_hash_def
      verify_consolidation_chain_def)

section \<open>Sequence numbers of the events\<close>

lemma register_event_fields:
  "events (snd (register_event c ty ag d ms stamp)) =
     events c @ [\<lparr>event_id = ''event_'' @ str_int ms @ ''_'' @ str_int (sequence_counter c),
                   event_timestamp = stamp, event_type = ty, agent = ag, data = d,
                   sequence = sequence_counter c + 1\<rparr>]"
  "sequence_counter (snd (register_event c ty ag d ms stamp)) = sequence_counter c + 1"
  "coordination_locks (snd (register_event c ty ag d ms stamp)) = coordination_locks c"
  by (simp_all add: register_event_def Let_def)

text \<open>The counter is the number of events, and the events are numbered from 1 in order.\<close>

definition numbered :: "TemporalCoordinator \<Rightarrow> bool" where
  "numbered c =
     (sequence_counter c = int (length (events c))
      \<and> map sequence (events c) = map int [1..<Suc (length (events c))])"

lemma numbered_init: "numbered init_coordinator"
  by (simp add: numbered_def init_coordinator_def)

lemma numbered_step: "numbered c \<Longrightarrow> numbered (register_step c call)"
  by (cases call) (simp add: numbered_def register_event_fields)

lemma numbered_foldl: "numbered c \<Longrightarrow> numbered (foldl register_step c calls)"
  by (induction calls arbitrary: c) (simp_all add: numbered_step)

lemma agents_foldl:
  "map agent (events (foldl register_step c calls)) =
     map agent (events c) @ map (\<lambda>(ty, ag, d, ms, stamp). ag) calls"
proof (induction calls arbitrary: c)
  case Nil
  show ?case by simp
next
  case (Cons call calls)
  show ?case
    by (cases call) (simp add: Cons.IH register_event_fields)
qed

lemma check_sequence_numbered:
  "map sequence es = map int [Suc i..<Suc (i + length es)] \<Longrightarrow> check_sequence i es"
proof (induction es arbitrary: i)
  case Nil
  show ?case by simp
next
  case (Cons e es)
  from Cons.prems have "sequence e = int (Suc i)"
    and "map sequence es = map int [Suc (Suc i)..<Suc (Suc i + length es)]"
    by (simp_all add: upt_conv_Cons del: upt_Suc)
  with Cons.IH [of "Suc i"] show ?case by simp
qed

lemma numbered_consistent:
  assumes "numbered c"
  shows "verify_temporal_consistency c"
proof -
  from assms have m: "map sequence (events c) = map int [1..<Suc (length (events c))]"
    by (simp add: numbered_def)
  have "sorted (map int [1..<Suc (length (events c))])"
    by (simp add: sorted_map del: upt_Suc)
  with m have "sort_key sequence (events c) = events c"
    by (simp add: sort_key_id_if_sorted)
  with m show ?thesis
    by (simp add: verify_temporal_consistency_def get_event_timeline_def
        check_sequence_numbered)
qed

text \<open>
  C4. After any run of \<^verbatim>\<open>register_event\<close> calls on a new coordinator there is one
  event for each call, in the order of the calls and attributed to the agent the call
  named; their sequence numbers are 1, 2, ..., N in that order, so the event at position
  \<open>i\<close> (from 0) has number \<open>i + 1\<close>, and \<^verbatim>\<open>_verify_temporal_consistency\<close>, which checks
  that condition on the timeline, answers true.
\<close>

theorem event_sequence_dense:
  "map sequence (events (register_run calls)) = map int [1..<Suc (length calls)]
   \<and> (\<forall>i < length calls. sequence (events (register_run calls) ! i) = int i + 1)
   \<and> map agent (events (register_run calls)) = map (\<lambda>(ty, ag, d, ms, stamp). ag) calls
   \<and> verify_temporal_consistency (register_run calls)"
proof -
  have n: "numbered (register_run calls)"
    by (simp add: register_run_def numbered_foldl numbered_init)
  have a: "map agent (events (register_run calls)) = map (\<lambda>(ty, ag, d, ms, stamp). ag) calls"
    by (simp add: register_run_def agents_foldl init_coordinator_def)
  from a have len: "length (events (register_run calls)) = length calls"
    by (metis length_map)
  from n len have m: "map sequence (events (register_run calls)) = map int [1..<Suc (length calls)]"
    by (simp add: numbered_def)
  have "sequence (events (register_run calls) ! i) = int i + 1" if "i < length calls" for i
  proof -
    from that len have "sequence (events (register_run calls) ! i)
        = map sequence (events (register_run calls)) ! i"
      by simp
    also have "\<dots> = int ([1..<Suc (length calls)] ! i)"
      using that by (simp add: m del: upt_Suc)
    also have "\<dots> = int i + 1"
      using that by (simp del: upt_Suc)
    finally show ?thesis .
  qed
  with m a numbered_consistent [OF n] show ?thesis by blast
qed

definition demo_events :: "register_call list" where
  "demo_events =
     [(''phase_start'', ''chronos'', [(''phase'', PStr ''one'')], 1000, ''T1''),
      (''scan'', ''ananke'', [], 1001, ''T2''),
      (''phase_complete'', ''elizaos'', [], 1002, ''T3'')]"

theorem event_sequence_dense_witness:
  "2 < length demo_events
   \<and> sequence (events (register_run demo_events) ! 2) = 3
   \<and> map agent (events (register_run demo_events)) = [''chronos'', ''ananke'', ''elizaos'']
   \<and> map sequence (events (register_run demo_events)) = [1, 2, 3]"
proof -
  have l: "2 < length demo_events"
    by (simp add: demo_events_def)
  note t = event_sequence_dense [of demo_events]
  from t l have "sequence (events (register_run demo_events) ! 2) = int 2 + 1"
    by blast
  moreover from t have "map agent (events (register_run demo_events))
      = map (\<lambda>(ty, ag, d, ms, stamp). ag) demo_events"
    by blast
  moreover from t have "map sequence (events (register_run demo_events))
      = map int [1..<Suc (length demo_events)]"
    by blast
  ultimately show ?thesis using l
    by (simp add: demo_events_def upt_rec [of 1] upt_rec [of 2] upt_rec [of 3])
qed

section \<open>Locks of a coordinated operation\<close>

lemma fold_locks_in:
  "a \<in> set agents \<Longrightarrow> fold (\<lambda>a m. m(a \<mapsto> b)) agents m a = Some b"
proof (induction agents arbitrary: m rule: rev_induct)
  case Nil
  then show ?case by simp
next
  case (snoc x xs)
  then show ?case by (cases "a = x") auto
qed

lemma fold_locks_out:
  "a \<notin> set agents \<Longrightarrow> fold (\<lambda>a m. m(a \<mapsto> b)) agents m a = m a"
  by (induction agents arbitrary: m) auto

lemma set_locks_free: "a \<in> set agents \<Longrightarrow> \<not> is_locked (set_locks c agents False) a"
  by (simp add: is_locked_def set_locks_def fold_locks_in)

lemma set_locks_held: "a \<in> set agents \<Longrightarrow> is_locked (set_locks c agents True) a"
  by (simp add: is_locked_def set_locks_def fold_locks_in)

lemma set_locks_other: "a \<notin> set agents \<Longrightarrow> is_locked (set_locks c agents b) a = is_locked c a"
  by (simp add: is_locked_def set_locks_def fold_locks_out)

lemma is_locked_register_event:
  "is_locked (snd (register_event c ty ag d ms stamp)) a = is_locked c a"
  by (simp add: is_locked_def register_event_fields)

lemma coordinate_begin_None:
  "coordinate_begin c op agents t0 clk = None \<longleftrightarrow> list_ex (is_locked c) agents"
  by (simp add: coordinate_begin_def)

lemma coordinate_begin_held:
  "coordinate_begin c op agents t0 clk = Some c1 \<Longrightarrow> a \<in> set agents \<Longrightarrow> is_locked c1 a"
  by (auto simp: coordinate_begin_def is_locked_register_event set_locks_held
      split: if_splits)

lemma coordinate_operation_rejected:
  "list_ex (is_locked c) agents
     \<Longrightarrow> coordinate_operation work c op agents t0 clk1 clk2 = (Inr False, c)"
  by (simp add: coordinate_operation_def coordinate_begin_def)

lemma coordinate_operation_resumed:
  assumes "coordinate_begin c op agents t0 clk1 = Some c1" and "work c1 = Resumed c2"
  shows "fst (coordinate_operation work c op agents t0 clk1 clk2) = Inr True"
    and "a \<in> set agents
           \<Longrightarrow> \<not> is_locked (snd (coordinate_operation work c op agents t0 clk1 clk2)) a"
    and "a \<notin> set agents
           \<Longrightarrow> is_locked (snd (coordinate_operation work c op agents t0 clk1 clk2)) a
                 = is_locked c2 a"
  using assms
  by (simp_all add: coordinate_operation_def coordinate_finish_def
      is_locked_register_event set_locks_free set_locks_other)

lemma coordinate_operation_raised:
  assumes "coordinate_begin c op agents t0 clk1 = Some c1" and "work c1 = Raised c2"
  shows "fst (coordinate_operation work c op agents t0 clk1 clk2) = Inr False"
    and "a \<in> set agents
           \<Longrightarrow> \<not> is_locked (snd (coordinate_operation work c op agents t0 clk1 clk2)) a"
    and "a \<notin> set agents
           \<Longrightarrow> is_locked (snd (coordinate_operation work c op agents t0 clk1 clk2)) a
                 = is_locked c2 a"
  using assms
  by (simp_all add: coordinate_operation_def coordinate_failed_def
      set_locks_free set_locks_other)

lemma coordinate_operation_interrupted:
  assumes "coordinate_begin c op agents t0 clk1 = Some c1" and "work c1 = Interrupted c2"
  shows "coordinate_operation work c op agents t0 clk1 clk2 = (Inl CancelledError, c2)"
  using assms by (simp add: coordinate_operation_def)

text \<open>
  The coordinator in which a first call, for the agents \<open>A\<close> and \<open>B\<close>, is suspended
  at its \<^verbatim>\<open>await\<close>: the state that any other coroutine of the event loop then finds.
\<close>

definition first_suspended :: TemporalCoordinator where
  "first_suspended =
     (case coordinate_begin init_coordinator ''first'' [''A'', ''B''] 7 (7000, ''T1'') of
        None \<Rightarrow> init_coordinator
      | Some c \<Rightarrow> c)"

lemma first_suspended_locks:
  "is_locked first_suspended ''A''" "is_locked first_suspended ''B''"
  "\<not> is_locked first_suspended ''C''"
  by (simp_all add: first_suspended_def coordinate_begin_def init_coordinator_def
      is_locked_def set_locks_def register_event_fields)

lemma first_begin:
  "coordinate_begin init_coordinator ''first'' [''A'', ''B''] 7 (7000, ''T1'')
     = Some first_suspended"
  by (simp add: first_suspended_def coordinate_begin_def is_locked_def init_coordinator_def)

text \<open>
  C2, as amended. A call of \<^verbatim>\<open>coordinate_operation\<close> that finds every requested agent
  free takes the lock of each of them and suspends. Resumed, it returns true, and resumed
  by an exception that its handler catches it returns false; both times the lock of every
  requested agent is free at the return and the locks of the other agents are as the
  suspension left them. (Resumed by an exception that \<^verbatim>\<open>except Exception\<close> does not
  catch, the call does not return.) A call that finds a requested agent locked returns
  false and leaves the lock table as it was: the lock that caused the rejection is still
  held when the call returns.
\<close>

theorem coordinate_operation_locks:
  "(coordinate_begin c op agents t0 clk1 = None) = list_ex (is_locked c) agents
   \<and> (list_ex (is_locked c) agents \<longrightarrow>
        coordinate_operation work c op agents t0 clk1 clk2 = (Inr False, c)
        \<and> (\<exists>a \<in> set agents.
              is_locked (snd (coordinate_operation work c op agents t0 clk1 clk2)) a))
   \<and> (\<forall>c1. coordinate_begin c op agents t0 clk1 = Some c1 \<longrightarrow>
        (\<forall>a \<in> set agents. is_locked c1 a)
        \<and> (\<forall>c2. work c1 = Resumed c2 \<longrightarrow>
              fst (coordinate_operation work c op agents t0 clk1 clk2) = Inr True
              \<and> (\<forall>a. is_locked (snd (coordinate_operation work c op agents t0 clk1 clk2)) a
                       = (a \<notin> set agents \<and> is_locked c2 a)))
        \<and> (\<forall>c2. work c1 = Raised c2 \<longrightarrow>
              fst (coordinate_operation work c op agents t0 clk1 clk2) = Inr False
              \<and> (\<forall>a. is_locked (snd (coordinate_operation work c op agents t0 clk1 clk2)) a
                       = (a \<notin> set agents \<and> is_locked c2 a)))
        \<and> (\<forall>c2. work c1 = Interrupted c2 \<longrightarrow>
              fst (coordinate_operation work c op agents t0 clk1 clk2) = Inl CancelledError))"
proof -
  have rej: "list_ex (is_locked c) agents \<longrightarrow>
        coordinate_operation work c op agents t0 clk1 clk2 = (Inr False, c)
        \<and> (\<exists>a \<in> set agents.
              is_locked (snd (coordinate_operation work c op agents t0 clk1 clk2)) a)"
    using coordinate_operation_rejected [of c agents work op t0 clk1 clk2]
    by (auto simp: list_ex_iff)
  have acq: "(\<forall>a \<in> set agents. is_locked c1 a)
        \<and> (\<forall>c2. work c1 = Resumed c2 \<longrightarrow>
              fst (coordinate_operation work c op agents t0 clk1 clk2) = Inr True
              \<and> (\<forall>a. is_locked (snd (coordinate_operation work c op agents t0 clk1 clk2)) a
                       = (a \<notin> set agents \<and> is_locked c2 a)))
        \<and> (\<forall>c2. work c1 = Raised c2 \<longrightarrow>
              fst (coordinate_operation work c op agents t0 clk1 clk2) = Inr False
              \<and> (\<forall>a. is_locked (snd (coordinate_operation work c op agents t0 clk1 clk2)) a
                       = (a \<notin> set agents \<and> is_locked c2 a)))
        \<and> (\<forall>c2. work c1 = Interrupted c2 \<longrightarrow>
              fst (coordinate_operation work c op agents t0 clk1 clk2) = Inl CancelledError)"
    if b: "coordinate_begin c op agents t0 clk1 = Some c1" for c1
  proof (intro conjI allI impI ballI)
    fix a assume "a \<in> set agents"
    with b show "is_locked c1 a" by (rule coordinate_begin_held)
  next
    fix c2 assume w: "work c1 = Resumed c2"
    show "fst (coordinate_operation work c op agents t0 clk1 clk2) = Inr True"
      using b w by (rule coordinate_operation_resumed(1))
    fix a
    show "is_locked (snd (coordinate_operation work c op agents t0 clk1 clk2)) a
            = (a \<notin> set agents \<and> is_locked c2 a)"
      using coordinate_operation_resumed(2,3) [where work = work and a = a, OF b w] by (cases "a \<in> set agents") auto
  next
    fix c2 assume w: "work c1 = Raised c2"
    show "fst (coordinate_operation work c op agents t0 clk1 clk2) = Inr False"
      using b w by (rule coordinate_operation_raised(1))
    fix a
    show "is_locked (snd (coordinate_operation work c op agents t0 clk1 clk2)) a
            = (a \<notin> set agents \<and> is_locked c2 a)"
      using coordinate_operation_raised(2,3) [where work = work and a = a, OF b w] by (cases "a \<in> set agents") auto
  next
    fix c2 assume w: "work c1 = Interrupted c2"
    show "fst (coordinate_operation work c op agents t0 clk1 clk2) = Inl CancelledError"
      using coordinate_operation_interrupted [where work = work, OF b w] by simp
  qed
  from rej acq coordinate_begin_None [of c op agents t0 clk1] show ?thesis by blast
qed

text \<open>
  A first call on a new coordinator, resumed normally and resumed by an exception, and a
  second call for \<open>B\<close> and \<open>C\<close> made while the first is suspended.
\<close>

theorem coordinate_operation_locks_witness:
  "coordinate_begin init_coordinator ''first'' [''A'', ''B''] 7 (7000, ''T1'')
     = Some first_suspended
   \<and> ''A'' \<in> set [''A'', ''B''] \<and> is_locked first_suspended ''A''
   \<and> fst (coordinate_operation Resumed init_coordinator ''first'' [''A'', ''B'']
            7 (7000, ''T1'') (7100, ''T2'')) = Inr True
   \<and> \<not> is_locked (snd (coordinate_operation Resumed init_coordinator ''first'' [''A'', ''B'']
                           7 (7000, ''T1'') (7100, ''T2''))) ''A''
   \<and> fst (coordinate_operation Raised init_coordinator ''first'' [''A'', ''B'']
            7 (7000, ''T1'') (7100, ''T2'')) = Inr False
   \<and> \<not> is_locked (snd (coordinate_operation Raised init_coordinator ''first'' [''A'', ''B'']
                           7 (7000, ''T1'') (7100, ''T2''))) ''B''
   \<and> fst (coordinate_operation Interrupted init_coordinator ''first'' [''A'', ''B'']
            7 (7000, ''T1'') (7100, ''T2'')) = Inl CancelledError
   \<and> list_ex (is_locked first_suspended) [''B'', ''C'']
   \<and> coordinate_operation Resumed first_suspended ''second'' [''B'', ''C'']
        8 (8000, ''T3'') (8100, ''T4'') = (Inr False, first_suspended)"
proof -
  have m: "''A'' \<in> set [''A'', ''B'']" by simp
  have held: "list_ex (is_locked first_suspended) [''B'', ''C'']"
    by (simp add: first_suspended_locks)
  note t1 = coordinate_operation_locks [of init_coordinator "''first''" "[''A'', ''B'']" 7
      "(7000, ''T1'')" Resumed "(7100, ''T2'')"]
  note t2 = coordinate_operation_locks [of init_coordinator "''first''" "[''A'', ''B'']" 7
      "(7000, ''T1'')" Raised "(7100, ''T2'')"]
  note t3 = coordinate_operation_locks [of init_coordinator "''first''" "[''A'', ''B'']" 7
      "(7000, ''T1'')" Interrupted "(7100, ''T2'')"]
  note t4 = coordinate_operation_locks [of first_suspended "''second''" "[''B'', ''C'']" 8
      "(8000, ''T3'')" Resumed "(8100, ''T4'')"]
  from t1 first_begin m have a: "is_locked first_suspended ''A''"
    by blast
  from t1 first_begin
  have 1: "fst (coordinate_operation Resumed init_coordinator ''first'' [''A'', ''B'']
            7 (7000, ''T1'') (7100, ''T2'')) = Inr True"
    and 2: "is_locked (snd (coordinate_operation Resumed init_coordinator ''first'' [''A'', ''B'']
                           7 (7000, ''T1'') (7100, ''T2''))) ''A''
            = (''A'' \<notin> set [''A'', ''B''] \<and> is_locked first_suspended ''A'')"
    by blast+
  from t2 first_begin
  have 3: "fst (coordinate_operation Raised init_coordinator ''first'' [''A'', ''B'']
            7 (7000, ''T1'') (7100, ''T2'')) = Inr False"
    and 4: "is_locked (snd (coordinate_operation Raised init_coordinator ''first'' [''A'', ''B'']
                           7 (7000, ''T1'') (7100, ''T2''))) ''B''
            = (''B'' \<notin> set [''A'', ''B''] \<and> is_locked first_suspended ''B'')"
    by blast+
  from t3 first_begin
  have 5: "fst (coordinate_operation Interrupted init_coordinator ''first'' [''A'', ''B'']
            7 (7000, ''T1'') (7100, ''T2'')) = Inl CancelledError"
    by blast
  from t4 held
  have 6: "coordinate_operation Resumed first_suspended ''second'' [''B'', ''C'']
        8 (8000, ''T3'') (8100, ''T4'') = (Inr False, first_suspended)"
    by blast
  from 2 have r2: "\<not> is_locked (snd (coordinate_operation Resumed init_coordinator ''first''
                  [''A'', ''B''] 7 (7000, ''T1'') (7100, ''T2''))) ''A''"
    by simp
  from 4 have r4: "\<not> is_locked (snd (coordinate_operation Raised init_coordinator ''first''
                  [''A'', ''B''] 7 (7000, ''T1'') (7100, ''T2''))) ''B''"
    by simp
  from first_begin m a 1 r2 3 r4 5 held 6 show ?thesis by blast
qed

text \<open>
  C2 as stated fails on the rejected call: while the first call is suspended, a second
  call for \<open>A\<close> and \<open>B\<close> returns false, and the locks of \<open>A\<close> and \<open>B\<close>, both in the
  requested set, are held when it returns.
\<close>

theorem coordinate_operation_locks_counterexample:
  "coordinate_begin init_coordinator ''first'' [''A'', ''B''] 7 (7000, ''T1'')
     = Some first_suspended
   \<and> coordinate_operation Resumed first_suspended ''second'' [''A'', ''B'']
       8 (8000, ''T3'') (8100, ''T4'') = (Inr False, first_suspended)
   \<and> ''A'' \<in> set [''A'', ''B'']
   \<and> is_locked (snd (coordinate_operation Resumed first_suspended ''second'' [''A'', ''B'']
                       8 (8000, ''T3'') (8100, ''T4''))) ''A''"
proof -
  have r: "coordinate_operation Resumed first_suspended ''second'' [''A'', ''B'']
       8 (8000, ''T3'') (8100, ''T4'') = (Inr False, first_suspended)"
    by (simp add: coordinate_operation_def coordinate_begin_def first_suspended_locks)
  from first_begin r show ?thesis by (simp add: first_suspended_locks)
qed

text \<open>
  C5. When an agent of the requested set holds a lock at the call,
  \<^verbatim>\<open>coordinate_operation\<close> returns false before it reaches its suspension point,
  whatever the coordinated work would have been, and the coordinator is as it was: no
  lock has been taken and the lock of every agent is as before.
\<close>

theorem coordinate_operation_contention:
  assumes "a \<in> set agents" and "is_locked c a"
  shows "coordinate_operation work c op agents t0 clk1 clk2 = (Inr False, c)
         \<and> coordinate_begin c op agents t0 clk1 = None
         \<and> (\<forall>b. is_locked (snd (coordinate_operation work c op agents t0 clk1 clk2)) b
                  = is_locked c b)"
proof -
  from assms have l: "list_ex (is_locked c) agents"
    by (auto simp: list_ex_iff)
  then show ?thesis
    by (simp add: coordinate_operation_rejected coordinate_begin_None)
qed

theorem coordinate_operation_contention_witness:
  "''B'' \<in> set [''B'', ''C''] \<and> is_locked first_suspended ''B''
   \<and> coordinate_operation Raised first_suspended ''second'' [''B'', ''C'']
       8 (8000, ''T3'') (8100, ''T4'') = (Inr False, first_suspended)
   \<and> is_locked (snd (coordinate_operation Raised first_suspended ''second'' [''B'', ''C'']
        8 (8000, ''T3'') (8100, ''T4''))) ''C'' = is_locked first_suspended ''C''"
proof -
  have m: "''B'' \<in> set [''B'', ''C'']" by simp
  have h: "is_locked first_suspended ''B''" by (rule first_suspended_locks)
  from coordinate_operation_contention [OF m h, of Raised "''second''" 8 "(8000, ''T3'')" "(8100, ''T4'')"]
    m h show ?thesis by blast
qed

section \<open>Proofs of consolidation\<close>

lemma find_update_first:
  assumes "\<And>x. P (f x) = P x"
  shows "find P (update_first P f xs) = map_option f (find P xs)"
  by (induction xs) (simp_all add: assms)

lemma find_finalized:
  "find (\<lambda>p. proof_id p = pid)
     (update_first (\<lambda>p. proof_id p = pid) (\<lambda>p. p\<lparr>after_hash := h, verified := True\<rparr>) ps)
   = map_option (\<lambda>p. p\<lparr>after_hash := h, verified := True\<rparr>) (find (\<lambda>p. proof_id p = pid) ps)"
  by (rule find_update_first) simp

lemma verify_integrity_iff:
  "verify_integrity pe pid =
     (\<exists>p. find (\<lambda>p. proof_id p = pid) (proofs pe) = Some p
          \<and> verified p \<and> before_hash p \<noteq> after_hash p \<and> files_affected p \<noteq> [])"
  by (cases "find (\<lambda>p. proof_id p = pid) (proofs pe)") (simp_all add: verify_integrity_def)

lemma finalize_proof_marks:
  assumes "finalize_proof e fs pe pid files = (True, pe')"
  shows "\<exists>p p'. find (\<lambda>p. proof_id p = pid) (proofs pe) = Some p
           \<and> find (\<lambda>p. proof_id p = pid) (proofs pe') = Some p'
           \<and> p' = p\<lparr>after_hash := state_hash e fs files, verified := True\<rparr>"
  using assms
  by (cases "find (\<lambda>p. proof_id p = pid) (proofs pe)")
     (auto simp: finalize_proof_def find_finalized)

text \<open>
  C6. \<^verbatim>\<open>verify_integrity\<close> answers true exactly when the stored proof with the
  identifier (the first, should several have it) is finalized, its before and after
  hashes differ and its list of files is not empty. When \<^verbatim>\<open>finalize_proof\<close> succeeds,
  that proof is marked finalized and has the hash of the files as its after hash,
  whatever the before hash is; and if the two are equal, \<^verbatim>\<open>verify_integrity\<close> answers
  false for the finalized proof.
\<close>

theorem verify_integrity_finalized:
  "verify_integrity pe pid =
     (\<exists>p. find (\<lambda>p. proof_id p = pid) (proofs pe) = Some p
          \<and> verified p \<and> before_hash p \<noteq> after_hash p \<and> files_affected p \<noteq> [])
   \<and> (finalize_proof e fs pe pid files = (True, pe') \<longrightarrow>
        (\<exists>p'. find (\<lambda>p. proof_id p = pid) (proofs pe') = Some p'
             \<and> verified p' \<and> after_hash p' = state_hash e fs files
             \<and> (before_hash p' = after_hash p' \<longrightarrow> \<not> verify_integrity pe' pid)))"
proof -
  have "\<exists>p'. find (\<lambda>p. proof_id p = pid) (proofs pe') = Some p'
             \<and> verified p' \<and> after_hash p' = state_hash e fs files
             \<and> (before_hash p' = after_hash p' \<longrightarrow> \<not> verify_integrity pe' pid)"
    if "finalize_proof e fs pe pid files = (True, pe')"
  proof -
    from finalize_proof_marks [OF that] obtain p p'
      where "find (\<lambda>p. proof_id p = pid) (proofs pe') = Some p'"
        and "p' = p\<lparr>after_hash := state_hash e fs files, verified := True\<rparr>"
      by blast
    then show ?thesis by (simp add: verify_integrity_def)
  qed
  with verify_integrity_iff [of pe pid] show ?thesis by blast
qed

text \<open>
  A proof over one file, generated and finalized with the file unchanged in between:
  finalized, and not verified.
\<close>

definition demo_fs :: filesystem where
  "demo_fs p = (if p = ''a.txt'' then Content ''abc'' else Missing)"

definition demo_generated :: ProofEngine where
  "demo_generated =
     snd (generate_consolidation_proof toy_env demo_fs init_proof_engine
            ''merge'' [''a.txt'', ''b.txt''] ''1.0'' ''T1'')"

definition demo_proof :: ConsolidationProof where
  "demo_proof =
     \<lparr>proof_id = ''h:merge_1.0'', proof_operation = ''merge'',
      files_affected = [''a.txt'', ''b.txt''], before_hash = ''h:abc'', after_hash = [],
      proof_timestamp = ''T1'', verified = False\<rparr>"

lemma demo_generated_eval: "demo_generated = \<lparr>proofs = [demo_proof]\<rparr>"
  by (simp add: demo_generated_def generate_consolidation_proof_def init_proof_engine_def
      Let_def state_hash_def demo_fs_def toy_env_def demo_proof_def)

lemma demo_finalized:
  "finalize_proof toy_env demo_fs demo_generated ''h:merge_1.0'' [''a.txt'', ''b.txt'']
     = (True, \<lparr>proofs = [demo_proof\<lparr>after_hash := ''h:abc'', verified := True\<rparr>]\<rparr>)"
  by (simp add: demo_generated_eval finalize_proof_def)
     (simp add: demo_proof_def state_hash_def demo_fs_def toy_env_def)

theorem verify_integrity_finalized_witness:
  "finalize_proof toy_env demo_fs demo_generated ''h:merge_1.0'' [''a.txt'', ''b.txt'']
     = (True, \<lparr>proofs = [demo_proof\<lparr>after_hash := ''h:abc'', verified := True\<rparr>]\<rparr>)
   \<and> find (\<lambda>p. proof_id p = ''h:merge_1.0'')
        (proofs \<lparr>proofs = [demo_proof\<lparr>after_hash := ''h:abc'', verified := True\<rparr>]\<rparr>)
       = Some (demo_proof\<lparr>after_hash := ''h:abc'', verified := True\<rparr>)
   \<and> verified (demo_proof\<lparr>after_hash := ''h:abc'', verified := True\<rparr>)
   \<and> before_hash (demo_proof\<lparr>after_hash := ''h:abc'', verified := True\<rparr>)
       = after_hash (demo_proof\<lparr>after_hash := ''h:abc'', verified := True\<rparr>)
   \<and> \<not> verify_integrity \<lparr>proofs = [demo_proof\<lparr>after_hash := ''h:abc'', verified := True\<rparr>]\<rparr>
         ''h:merge_1.0''"
proof -
  let ?p = "demo_proof\<lparr>after_hash := ''h:abc'', verified := True\<rparr>"
  have f: "find (\<lambda>p. proof_id p = ''h:merge_1.0'') (proofs \<lparr>proofs = [?p]\<rparr>) = Some ?p"
    by (simp add: demo_proof_def)
  have eq: "before_hash ?p = after_hash ?p"
    by (simp add: demo_proof_def)
  note t = verify_integrity_finalized [of demo_generated "''h:merge_1.0''" toy_env demo_fs
      "[''a.txt'', ''b.txt'']" "\<lparr>proofs = [?p]\<rparr>"]
  from t demo_finalized obtain p'
    where 1: "find (\<lambda>p. proof_id p = ''h:merge_1.0'') (proofs \<lparr>proofs = [?p]\<rparr>) = Some p'"
      and 2: "before_hash p' = after_hash p'
              \<longrightarrow> \<not> verify_integrity \<lparr>proofs = [?p]\<rparr> ''h:merge_1.0''"
    by blast
  from 1 f have "p' = ?p"
    by (metis option.inject)
  with 2 eq have nv: "\<not> verify_integrity \<lparr>proofs = [?p]\<rparr> ''h:merge_1.0''"
    by blast
  from demo_finalized f eq nv show ?thesis
    by (simp add: demo_proof_def)
qed

text \<open>
  C9. For an identifier that no stored proof has, \<^verbatim>\<open>finalize_proof\<close> returns false and
  the collection of proofs, each with all its fields, is as before; and
  \<^verbatim>\<open>verify_integrity\<close> returns false.
\<close>

theorem unknown_proof_id:
  assumes "\<forall>p \<in> set (proofs pe). proof_id p \<noteq> pid"
  shows "finalize_proof e fs pe pid files = (False, pe) \<and> \<not> verify_integrity pe pid"
proof -
  from assms have "find (\<lambda>p. proof_id p = pid) (proofs pe) = None"
    by (simp add: find_None_iff)
  then show ?thesis
    by (simp add: finalize_proof_def verify_integrity_def)
qed

theorem unknown_proof_id_witness:
  "(\<exists>p. p \<in> set (proofs demo_generated))
   \<and> finalize_proof toy_env demo_fs demo_generated ''h:split_2.0'' [''a.txt''] = (False, demo_generated)
   \<and> \<not> verify_integrity demo_generated ''h:split_2.0''"
proof -
  have a: "\<forall>p \<in> set (proofs demo_generated). proof_id p \<noteq> ''h:split_2.0''"
    by (simp add: demo_generated_eval demo_proof_def)
  have b: "\<exists>p. p \<in> set (proofs demo_generated)"
    by (simp add: demo_generated_eval)
  from unknown_proof_id [OF a, of toy_env demo_fs "[''a.txt'']"] b show ?thesis by blast
qed

end
